theory Spec2Isabelle
  imports Complex_Main "HOL-Library.Word"
begin

section \<open>Python values shared by the whole module\<close>

text \<open>
  The exceptions that \<^verbatim>\<open>doc.py\<close> can raise, as values. A function of the module that can
  raise returns \<open>py_error + 'a\<close>, with \<open>Inl\<close> for the exception.
\<close>

datatype py_error =
  AssertionError | ValueError | IndexError | KeyError | RuntimeError | FileNotFoundError

text \<open>
  A Python \<^verbatim>\<open>dict\<close> is an association list in insertion order: \<^verbatim>\<open>d[k] = v\<close> replaces the
  entry of an existing key where it stands and appends a new key at the end, \<^verbatim>\<open>d[k]\<close>
  raises \<^verbatim>\<open>KeyError\<close> on a missing key, \<^verbatim>\<open>k in d\<close> tests the keys.
\<close>

type_synonym ('k, 'v) dict = "('k \<times> 'v) list"

primrec dict_set :: "'k \<Rightarrow> 'v \<Rightarrow> ('k, 'v) dict \<Rightarrow> ('k, 'v) dict" where
  "dict_set k v [] = [(k, v)]"
| "dict_set k v (p # ps) = (if fst p = k then (k, v) # ps else p # dict_set k v ps)"

definition dict_get :: "('k, 'v) dict \<Rightarrow> 'k \<Rightarrow> py_error + 'v" where
  "dict_get d k = (case map_of d k of None \<Rightarrow> Inl KeyError | Some v \<Rightarrow> Inr v)"

definition dict_has :: "('k, 'v) dict \<Rightarrow> 'k \<Rightarrow> bool" where
  "dict_has d k = (k \<in> set (map fst d))"

section \<open>Collation: \<^verbatim>\<open>to_indices_and_mask\<close>\<close>

text \<open>
  A one-dimensional \<^verbatim>\<open>torch.LongTensor\<close> is a list of 64-bit words, a \<^verbatim>\<open>ByteTensor\<close> a list
  of 8-bit words, a two-dimensional tensor the list of its rows.
\<close>

type_synonym long_tensor = "64 word list"
type_synonym long_matrix = "64 word list list"
type_synonym byte_matrix = "8 word list list"

text \<open>\<^verbatim>\<open>max(xs)\<close> on a list: \<^verbatim>\<open>ValueError\<close> on the empty list.\<close>

fun py_max :: "nat list \<Rightarrow> py_error + nat" where
  "py_max [] = Inl ValueError"
| "py_max (x # xs) = Inr (fold max xs x)"

text \<open>
  \<^verbatim>\<open>row[:len(t)].copy_(t)\<close>: the slice is the first \<open>min (len t) (len row)\<close> cells of the row,
  and \<^verbatim>\<open>copy_\<close> raises when \<open>t\<close> does not have the size of the slice.
  \<^verbatim>\<open>row[:n].fill_(v)\<close> overwrites the cells of the slice.
\<close>

definition copy_prefix :: "'a list \<Rightarrow> 'a list \<Rightarrow> py_error + 'a list" where
  "copy_prefix row t =
     (if length t \<le> length row then Inr (t @ drop (length t) row) else Inl RuntimeError)"

definition fill_prefix :: "'a list \<Rightarrow> nat \<Rightarrow> 'a \<Rightarrow> 'a list" where
  "fill_prefix row n v = replicate (min n (length row)) v @ drop n row"

text \<open>
  The loop \<^verbatim>\<open>for i, t in enumerate(batch_tensor)\<close>, from index \<open>i\<close> on. The mask exists
  only when \<^verbatim>\<open>need_mask\<close> holds, hence the option.
\<close>

fun fill_rows ::
  "nat \<Rightarrow> long_tensor list \<Rightarrow> long_matrix \<Rightarrow> byte_matrix option
     \<Rightarrow> py_error + (long_matrix \<times> byte_matrix option)" where
  "fill_rows i [] indices msk = Inr (indices, msk)"
| "fill_rows i (t # ts) indices msk =
     (case copy_prefix (indices ! i) t of
        Inl e \<Rightarrow> Inl e
      | Inr row \<Rightarrow>
          fill_rows (Suc i) ts (indices[i := row])
            (map_option (\<lambda>m. m[i := fill_prefix (m ! i) (length t) 1]) msk))"

datatype collated = IndicesAndMask long_matrix byte_matrix | Indices long_matrix

definition to_indices_and_mask ::
  "long_tensor list \<Rightarrow> 64 word \<Rightarrow> bool \<Rightarrow> py_error + collated" where
  "to_indices_and_mask batch_tensor pad_token_id need_mask =
     (case py_max (map length batch_tensor) of
        Inl e \<Rightarrow> Inl e
      | Inr mx_len \<Rightarrow>
          (let batch_size = length batch_tensor;
               indices = replicate batch_size (replicate mx_len pad_token_id);
               msk = (if need_mask then Some (replicate batch_size (replicate mx_len 0))
                       else None)
           in case fill_rows 0 batch_tensor indices msk of
                Inl e \<Rightarrow> Inl e
              | Inr (indices', mask') \<Rightarrow>
                  (case mask' of
                     Some m \<Rightarrow> Inr (IndicesAndMask indices' m)
                   | None \<Rightarrow> Inr (Indices indices'))))"

section \<open>Strings\<close>

text \<open>
  Python strings are modelled as \<open>string\<close>. The operations \<^verbatim>\<open>doc.py\<close> uses on them:
  \<^verbatim>\<open>startswith\<close>, \<^verbatim>\<open>endswith\<close>, \<^verbatim>\<open>strip()\<close>, \<^verbatim>\<open>split()\<close> (on runs of whitespace),
  \<^verbatim>\<open>split(sep)\<close> for a one-character separator, \<^verbatim>\<open>sep.join\<close> and \<^verbatim>\<open>lower()\<close> (on ASCII
  letters).
\<close>

definition startswith :: "string \<Rightarrow> string \<Rightarrow> bool" where
  "startswith s p = (take (length p) s = p)"

definition endswith :: "string \<Rightarrow> string \<Rightarrow> bool" where
  "endswith s p = (length p \<le> length s \<and> drop (length s - length p) s = p)"

definition is_space :: "char \<Rightarrow> bool" where
  "is_space c = ((of_char c :: nat) \<in> {9, 10, 11, 12, 13, 28, 29, 30, 31, 32})"

definition strip :: "string \<Rightarrow> string" where
  "strip s = rev (dropWhile is_space (rev (dropWhile is_space s)))"

fun split_ws_from :: "string \<Rightarrow> string \<Rightarrow> string list" where
  "split_ws_from cur [] = (if cur = [] then [] else [rev cur])"
| "split_ws_from cur (c # cs) =
     (if is_space c then (if cur = [] then [] else [rev cur]) @ split_ws_from [] cs
      else split_ws_from (c # cur) cs)"

definition split_ws :: "string \<Rightarrow> string list" where
  "split_ws s = split_ws_from [] s"

fun split_on :: "char \<Rightarrow> string \<Rightarrow> string list" where
  "split_on sep [] = [[]]"
| "split_on sep (c # cs) =
     (if c = sep then [] # split_on sep cs
      else (case split_on sep cs of [] \<Rightarrow> [[c]] | w # ws \<Rightarrow> (c # w) # ws))"

fun join :: "string \<Rightarrow> string list \<Rightarrow> string" where
  "join sep [] = []"
| "join sep [w] = w"
| "join sep (w # ws) = w @ sep @ join sep ws"

definition lower_char :: "char \<Rightarrow> char" where
  "lower_char c =
     (let n = (of_char c :: nat) in if 65 \<le> n \<and> n \<le> 90 then char_of (n + 32) else c)"

definition lower :: "string \<Rightarrow> string" where
  "lower s = map lower_char s"

section \<open>The module's environment\<close>

text \<open>
  \<^verbatim>\<open>doc.py\<close> reads the global \<^verbatim>\<open>args\<close> of the \<^verbatim>\<open>config\<close> module and calls collaborators
  that are not part of the file: the entity directory, the link graph, the tokenizer,
  \<^verbatim>\<open>reverse_triplet\<close> and the file system with its JSON decoder. They are parameters of
  the model, gathered in one record.
\<close>

record config =
  args_task :: string
  args_use_link_graph :: bool
  args_is_test :: bool
  args_max_num_tokens :: nat
  args_batch_size :: nat
  args_cake_ratio :: rat

record entity_ex =
  entity :: string
  entity_desc :: string

record encoding =
  input_ids :: "int list"
  token_type_ids :: "int list"

text \<open>A decoded triplet object of an input file; keys beyond these three are ignored.\<close>

record triplet_obj =
  obj_head_id :: string
  obj_relation :: string
  obj_tail_id :: string

record env =
  args :: config
  entity_dict :: "string \<Rightarrow> entity_ex"
  link_graph :: "string \<Rightarrow> string list"
  tokenizer :: "string \<Rightarrow> string option \<Rightarrow> nat \<Rightarrow> encoding"
  reverse_triplet :: "triplet_obj \<Rightarrow> triplet_obj"
  json_files :: "string \<Rightarrow> triplet_obj list option"

text \<open>
  A computation that consults the entity directory returns its value together with the
  ids it passed to \<^verbatim>\<open>get_entity_by_id\<close>, in the order of the calls.
\<close>

type_synonym 'a looked_up = "'a \<times> string list"

definition get_entity_by_id :: "env \<Rightarrow> string \<Rightarrow> entity_ex looked_up" where
  "get_entity_by_id E eid = (entity_dict E eid, [eid])"

definition custom_tokenize :: "env \<Rightarrow> string \<Rightarrow> string option \<Rightarrow> encoding" where
  "custom_tokenize E txt text_pair =
     tokenizer E txt
       (case text_pair of None \<Rightarrow> None | Some p \<Rightarrow> if p = [] then None else Some p)
       (args_max_num_tokens (args E))"

definition parse_entity_name :: "env \<Rightarrow> string \<Rightarrow> string" where
  "parse_entity_name E ent =
     (if lower (args_task (args E)) = ''wn18rr''
      then (let parts = split_on (CHR ''_'') ent
            in join '' '' (take (length parts - 2) parts))
      else ent)"

definition concat_name_desc :: "string \<Rightarrow> string \<Rightarrow> string" where
  "concat_name_desc ent desc =
     (let desc' = (if startswith desc ent then strip (drop (length ent) desc) else desc)
      in if desc' \<noteq> [] then ent @ '': '' @ desc' else ent)"

definition get_neighbor_desc :: "env \<Rightarrow> string \<Rightarrow> string \<Rightarrow> string looked_up" where
  "get_neighbor_desc E hid tid =
     (let neighbor_ids = link_graph E hid;
          neighbor_ids' = (if \<not> args_is_test (args E)
                           then filter (\<lambda>n_id. n_id \<noteq> tid) neighbor_ids
                           else neighbor_ids);
          looked = map (get_entity_by_id E) neighbor_ids';
          entities = map (\<lambda>l. parse_entity_name E (entity (fst l))) looked
      in (join '' '' entities, concat (map snd looked)))"

section \<open>\<^verbatim>\<open>Example\<close>\<close>

record example =
  head_id :: string
  relation :: string
  tail_id :: string

definition Example :: "triplet_obj \<Rightarrow> example" where
  "Example obj =
     \<lparr>head_id = obj_head_id obj, relation = obj_relation obj, tail_id = obj_tail_id obj\<rparr>"

definition head_desc :: "env \<Rightarrow> example \<Rightarrow> string looked_up" where
  "head_desc E ex =
     (if head_id ex = [] then ([], [])
      else (let l = get_entity_by_id E (head_id ex) in (entity_desc (fst l), snd l)))"

definition tail_desc :: "env \<Rightarrow> example \<Rightarrow> string looked_up" where
  "tail_desc E ex = (let l = get_entity_by_id E (tail_id ex) in (entity_desc (fst l), snd l))"

definition head :: "env \<Rightarrow> example \<Rightarrow> string looked_up" where
  "head E ex =
     (if head_id ex = [] then ([], [])
      else (let l = get_entity_by_id E (head_id ex) in (entity (fst l), snd l)))"

definition tail :: "env \<Rightarrow> example \<Rightarrow> string looked_up" where
  "tail E ex = (let l = get_entity_by_id E (tail_id ex) in (entity (fst l), snd l))"

record vectorized =
  hr_token_ids :: "int list"
  hr_token_type_ids :: "int list"
  tail_token_ids :: "int list"
  tail_token_type_ids :: "int list"
  head_token_ids :: "int list"
  head_token_type_ids :: "int list"
  obj :: example

definition vectorize :: "env \<Rightarrow> example \<Rightarrow> vectorized looked_up" where
  "vectorize E ex =
     (let hd0 = head_desc E ex;
          td0 = tail_desc E ex;
          hn = (if args_use_link_graph (args E) \<and> length (split_ws (fst hd0)) < 20
                then (let n = get_neighbor_desc E (head_id ex) (tail_id ex)
                      in (fst hd0 @ '' '' @ fst n, snd n))
                else (fst hd0, []));
          tn = (if args_use_link_graph (args E) \<and> length (split_ws (fst td0)) < 20
                then (let n = get_neighbor_desc E (tail_id ex) (head_id ex)
                      in (fst td0 @ '' '' @ fst n, snd n))
                else (fst td0, []));
          h = head E ex;
          head_word = parse_entity_name E (fst h);
          head_text = concat_name_desc head_word (fst hn);
          hr_encoded_inputs = custom_tokenize E head_text (Some (relation ex));
          head_encoded_inputs = custom_tokenize E head_text None;
          t = tail E ex;
          tail_word = parse_entity_name E (fst t);
          tail_encoded_inputs = custom_tokenize E (concat_name_desc tail_word (fst tn)) None
      in (\<lparr>hr_token_ids = input_ids hr_encoded_inputs,
           hr_token_type_ids = token_type_ids hr_encoded_inputs,
           tail_token_ids = input_ids tail_encoded_inputs,
           tail_token_type_ids = token_type_ids tail_encoded_inputs,
           head_token_ids = input_ids head_encoded_inputs,
           head_token_type_ids = token_type_ids head_encoded_inputs,
           obj = ex\<rparr>,
          snd hd0 @ snd td0 @ snd hn @ snd tn @ snd h @ snd t))"

section \<open>\<^verbatim>\<open>load_data\<close> and \<^verbatim>\<open>Dataset\<close>\<close>

text \<open>The loop \<^verbatim>\<open>for i in range(cnt)\<close> of \<^verbatim>\<open>load_data\<close>, appending to the examples so far.\<close>

fun load_loop :: "env \<Rightarrow> bool \<Rightarrow> bool \<Rightarrow> triplet_obj list \<Rightarrow> example list \<Rightarrow> example list" where
  "load_loop E fwd bwd [] acc = acc"
| "load_loop E fwd bwd (ob # data) acc =
     (let acc1 = (if fwd then acc @ [Example ob] else acc);
          acc2 = (if bwd then acc1 @ [Example (reverse_triplet E ob)] else acc1)
      in load_loop E fwd bwd data acc2)"

definition load_data :: "env \<Rightarrow> string \<Rightarrow> bool \<Rightarrow> bool \<Rightarrow> py_error + example list" where
  "load_data E path add_forward_triplet add_backward_triplet =
     (if \<not> endswith path ''.json'' then Inl AssertionError
      else if \<not> (add_forward_triplet \<or> add_backward_triplet) then Inl AssertionError
      else (case json_files E path of
              None \<Rightarrow> Inl FileNotFoundError
            | Some data \<Rightarrow> Inr (load_loop E add_forward_triplet add_backward_triplet data [])))"

text \<open>
  The loop \<^verbatim>\<open>for path in self.path_list\<close> of \<^verbatim>\<open>Dataset.__init__\<close>; \<^verbatim>\<open>load_data\<close> is called
  with its defaults, both directions enabled.
\<close>

fun load_paths :: "env \<Rightarrow> string list \<Rightarrow> example list \<Rightarrow> py_error + example list" where
  "load_paths E [] acc = Inr acc"
| "load_paths E (p # ps) acc =
     (case load_data E p True True of
        Inl e \<Rightarrow> Inl e
      | Inr l \<Rightarrow> load_paths E ps (if acc = [] then l else acc @ l))"

record dataset =
  path_list :: "string list"
  task :: string
  examples :: "example list"
  rels :: "string list"
  rel2ent_t :: "(string, (string, nat list) dict) dict"
  rel_ex_cnt :: "(string, nat) dict"
  rel_hent :: "(string, string list) dict"
  ex_hid :: "(nat, string) dict"
  idx2example :: "(nat, example) dict"

text \<open>One round of \<^verbatim>\<open>for i, example in enumerate(self.examples)\<close>.\<close>

definition index_step :: "env \<Rightarrow> nat \<Rightarrow> example \<Rightarrow> dataset \<Rightarrow> dataset" where
  "index_step E i ex ds =
     ds\<lparr>idx2example := dict_set i ex (idx2example ds),
        ex_hid := dict_set i (head_id ex) (ex_hid ds),
        rels := rels ds @ [relation ex],
        rel2ent_t :=
          (case map_of (rel2ent_t ds) (relation ex) of
             Some inner \<Rightarrow>
               dict_set (relation ex) (dict_set (tail_id ex) [i] inner) (rel2ent_t ds)
           | None \<Rightarrow>
               dict_set (relation ex) (dict_set (tail_id ex) [i] []) (rel2ent_t ds)),
        rel_ex_cnt :=
          (case map_of (rel_ex_cnt ds) (relation ex) of
             Some c \<Rightarrow> dict_set (relation ex) (c + 1) (rel_ex_cnt ds)
           | None \<Rightarrow> dict_set (relation ex) 1 (rel_ex_cnt ds)),
        rel_hent :=
          (case map_of (rel_hent ds) (relation ex) of
             Some hs \<Rightarrow> dict_set (relation ex) (hs @ [fst (head E ex)]) (rel_hent ds)
           | None \<Rightarrow> dict_set (relation ex) [fst (head E ex)] (rel_hent ds))\<rparr>"

fun index_examples :: "env \<Rightarrow> nat \<Rightarrow> example list \<Rightarrow> dataset \<Rightarrow> dataset" where
  "index_examples E i [] ds = ds"
| "index_examples E i (ex # exs) ds = index_examples E (Suc i) exs (index_step E i ex ds)"

text \<open>
  \<^verbatim>\<open>Dataset(path, task, examples)\<close>. A path exists when the file system has a file for
  it; \<^verbatim>\<open>examples\<close> is falsy when it is \<^verbatim>\<open>None\<close> or the empty list.
\<close>

definition Dataset :: "env \<Rightarrow> string \<Rightarrow> string \<Rightarrow> example list option \<Rightarrow> py_error + dataset" where
  "Dataset E path tsk exs_opt =
     (let pl = split_on (CHR '','') path;
          given = (case exs_opt of None \<Rightarrow> [] | Some l \<Rightarrow> l)
      in if \<not> (list_all (\<lambda>p. json_files E p \<noteq> None) pl \<or> given \<noteq> [])
         then Inl AssertionError
         else (case (if given \<noteq> [] then Inr given else load_paths E pl []) of
                 Inl e \<Rightarrow> Inl e
               | Inr exs \<Rightarrow>
                   Inr (index_examples E 0 exs
                          \<lparr>path_list = pl, task = tsk, examples = exs, rels = [],
                           rel2ent_t = [], rel_ex_cnt = [], rel_hent = [], ex_hid = [],
                           idx2example = []\<rparr>)))"

definition dataset_len :: "dataset \<Rightarrow> nat" where
  "dataset_len ds = length (examples ds)"

definition dataset_getitem :: "env \<Rightarrow> dataset \<Rightarrow> nat \<Rightarrow> py_error + vectorized" where
  "dataset_getitem E ds i =
     (if i < length (examples ds) then Inr (fst (vectorize E (examples ds ! i)))
      else Inl IndexError)"

text \<open>
  The buckets of \<^verbatim>\<open>rel2ent_t\<close> that hold example index \<open>i\<close>: the pairs \<open>(r, t)\<close> with
  \<open>i\<close> in \<^verbatim>\<open>rel2ent_t[r][t]\<close>. The number of triplet objects of an input file.
\<close>

definition buckets_of :: "(string, (string, nat list) dict) dict \<Rightarrow> nat \<Rightarrow> (string \<times> string) list" where
  "buckets_of d i =
     concat (map (\<lambda>(r, inner). concat (map (\<lambda>(t, l). if i \<in> set l then [(r, t)] else []) inner)) d)"

text \<open>\<^verbatim>\<open>rel2ent_t[r][t]\<close>, with the empty list where a key is missing.\<close>

definition bucket :: "(string, (string, nat list) dict) dict \<Rightarrow> string \<Rightarrow> string \<Rightarrow> nat list" where
  "bucket d r t =
     (case map_of d r of
        None \<Rightarrow> []
      | Some inner \<Rightarrow> (case map_of inner t of None \<Rightarrow> [] | Some l \<Rightarrow> l))"


section \<open>\<^verbatim>\<open>RelationBatchSampler\<close>\<close>

text \<open>
  The values that \<^verbatim>\<open>ds_info\<close> hands to the sampler. (Which of them are fresh objects and
  which are shared with the dataset is the subject of the store model further down; the
  sampler only reads them.)
\<close>

record info =
  info_rels :: "string list"
  info_rel2ent_t :: "(string, (string, nat list) dict) dict"
  info_rel_ex_cnt :: "(string, nat) dict"
  info_ex_cnt :: nat
  info_ex_hid :: "(nat, string) dict"
  info_id2example :: "(nat, example) dict"

definition ds_info_values :: "dataset \<Rightarrow> info" where
  "ds_info_values ds =
     \<lparr>info_rels = rels ds, info_rel2ent_t = rel2ent_t ds, info_rel_ex_cnt = rel_ex_cnt ds,
      info_ex_cnt = length (examples ds), info_ex_hid = ex_hid ds,
      info_id2example = idx2example ds\<rparr>"

text \<open>
  The commonsense tables are JSON objects; a concept of \<^verbatim>\<open>rel2dom_h\<close> or \<^verbatim>\<open>rel2dom_t\<close> is a
  JSON number or string, turned into a key of \<^verbatim>\<open>dom_ent\<close> by \<^verbatim>\<open>str\<close>.
\<close>

datatype concept = ConceptInt int | ConceptStr string

fun str_nat :: "nat \<Rightarrow> string" where
  "str_nat n =
     (if n < 10 then [char_of (48 + n)] else str_nat (n div 10) @ [char_of (48 + n mod 10)])"

definition str_int :: "int \<Rightarrow> string" where
  "str_int i = (if i < 0 then CHR ''-'' # str_nat (nat (- i)) else str_nat (nat i))"

fun str_concept :: "concept \<Rightarrow> string" where
  "str_concept (ConceptInt i) = str_int i"
| "str_concept (ConceptStr c) = c"

record commonsense =
  cs_ent_dom :: "(string, concept list) dict"
  cs_dom_ent :: "(string, string list) dict"
  cs_rel2dom_h :: "(string, concept list) dict"
  cs_rel2dom_t :: "(string, concept list) dict"
  cs_rel2nn :: "(string, int) dict"

record sampler =
  ent_dom :: "(string, concept list) dict"
  dom_ent :: "(string, string list) dict"
  rel2dom_h :: "(string, concept list) dict"
  rel2dom_t :: "(string, concept list) dict"
  rel2nn :: "(string, int) dict"
  batch_size :: nat
  cake_ratio :: rat
  smp_rels :: "string list"
  smp_rel2ent_t :: "(string, (string, nat list) dict) dict"
  smp_rel_ex_cnt :: "(string, nat) dict"
  smp_length :: nat
  smp_ex_cnt :: nat
  smp_ex_hid :: "(nat, string) dict"
  smp_id2example :: "(nat, example) dict"

text \<open>
  \<^verbatim>\<open>RelationBatchSampler(batch_size, commonsense_path, cake_ratio, ds_info)\<close>, with the five
  JSON files of \<^verbatim>\<open>commonsense_path\<close> already decoded.
\<close>

definition RelationBatchSampler :: "nat \<Rightarrow> commonsense \<Rightarrow> rat \<Rightarrow> info \<Rightarrow> sampler" where
  "RelationBatchSampler bs cs ratio di =
     \<lparr>ent_dom = cs_ent_dom cs, dom_ent = cs_dom_ent cs, rel2dom_h = cs_rel2dom_h cs,
      rel2dom_t = cs_rel2dom_t cs, rel2nn = cs_rel2nn cs, batch_size = bs, cake_ratio = ratio,
      smp_rels = info_rels di, smp_rel2ent_t = info_rel2ent_t di,
      smp_rel_ex_cnt = info_rel_ex_cnt di,
      smp_length = length (map fst (info_rel_ex_cnt di)),
      smp_ex_cnt = info_ex_cnt di, smp_ex_hid = info_ex_hid di,
      smp_id2example = info_id2example di\<rparr>"

definition sampler_len :: "sampler \<Rightarrow> nat" where
  "sampler_len s = smp_length s"

subsection \<open>The random source\<close>

text \<open>
  The module-level generator of \<^verbatim>\<open>random\<close> is an infinite sequence \<open>rnd\<close> of raw draws and
  the position of the next one; a function that draws returns the new position. One call
  of \<^verbatim>\<open>random()\<close> scaled to \<open>n\<close> outcomes is \<open>rnd pos mod n\<close>, so that each outcome below \<open>n\<close>
  can occur.

  \<^verbatim>\<open>random.choices(population, k=k)\<close>: no draw when \<open>k\<close> is 0, \<^verbatim>\<open>IndexError\<close> when a draw is
  asked of the empty population.
  \<^verbatim>\<open>random.choices(population, weights, k=1)[0]\<close>: the running sums of the weights are
  bisected (to the right) at a point below their total.
\<close>

type_synonym rng = "nat \<Rightarrow> nat"

definition choices :: "'a list \<Rightarrow> nat \<Rightarrow> rng \<Rightarrow> nat \<Rightarrow> py_error + ('a list \<times> nat)" where
  "choices population k rnd pos =
     (if k = 0 then Inr ([], pos)
      else if population = [] then Inl IndexError
      else Inr (map (\<lambda>j. population ! (rnd (pos + j) mod length population)) [0..<k],
                pos + k))"

fun accumulate_from :: "nat \<Rightarrow> nat list \<Rightarrow> nat list" where
  "accumulate_from acc [] = []"
| "accumulate_from acc (w # ws) = (acc + w) # accumulate_from (acc + w) ws"

definition weighted_choice :: "'a list \<Rightarrow> nat list \<Rightarrow> rng \<Rightarrow> nat \<Rightarrow> py_error + ('a \<times> nat)" where
  "weighted_choice population weights rnd pos =
     (let n = length population;
          cum_weights = accumulate_from 0 weights
      in if length cum_weights \<noteq> n then Inl ValueError
         else if cum_weights = [] then Inl IndexError
         else (let total = last cum_weights
               in if total = 0 then Inl ValueError
                  else (let x = rnd pos mod total;
                            idx = length (filter (\<lambda>c. c \<le> x) (take (n - 1) cum_weights))
                        in Inr (population ! idx, pos + 1))))"

subsection \<open>\<^verbatim>\<open>concept_filter\<close>\<close>

definition reverse_dict :: "(int, int) dict" where
  "reverse_dict = [(0, 0), (1, 2), (2, 1), (3, 3)]"

text \<open>
  The comprehension \<^verbatim>\<open>[ent for concept in relation_concepts
  for ent in self.dom_ent[str(concept)] if ent in relation_ents]\<close>.
\<close>

fun concept_ents ::
  "(string, string list) dict \<Rightarrow> (string, nat list) dict \<Rightarrow> concept list
     \<Rightarrow> py_error + string list" where
  "concept_ents d relation_ents [] = Inr []"
| "concept_ents d relation_ents (c # cs) =
     (case dict_get d (str_concept c) of
        Inl e \<Rightarrow> Inl e
      | Inr ents \<Rightarrow>
          (case concept_ents d relation_ents cs of
             Inl e \<Rightarrow> Inl e
           | Inr others \<Rightarrow> Inr (filter (dict_has relation_ents) ents @ others)))"

text \<open>
  Lines 361 to 370 of \<^verbatim>\<open>concept_filter\<close>: the candidate pool \<^verbatim>\<open>rel_tail_exs\<close> after
  \<^verbatim>\<open>list(set(...))\<close>. The order in which Python lists a set is not specified; the model keeps
  the first occurrences in order, and no property below depends on the order.
\<close>

definition candidate_pool :: "sampler \<Rightarrow> string \<Rightarrow> py_error + nat list" where
  "candidate_pool s rel =
     (case (if take 8 rel = ''inverse ''
            then (case dict_get (rel2nn s) (drop 8 rel) of
                    Inl e \<Rightarrow> Inl e
                  | Inr c \<Rightarrow>
                      (case dict_get reverse_dict c of
                         Inl e \<Rightarrow> Inl e
                       | Inr nn \<Rightarrow>
                           (case dict_get (rel2dom_h s) (drop 8 rel) of
                              Inl e \<Rightarrow> Inl e
                            | Inr cs \<Rightarrow> Inr (nn, cs))))
            else (case dict_get (rel2nn s) rel of
                    Inl e \<Rightarrow> Inl e
                  | Inr nn \<Rightarrow>
                      (case dict_get (rel2dom_t s) rel of
                         Inl e \<Rightarrow> Inl e
                       | Inr cs \<Rightarrow> Inr (nn, cs)))) of
        Inl e \<Rightarrow> Inl e
      | Inr (nn, relation_concepts) \<Rightarrow>
          (case dict_get (smp_rel2ent_t s) rel of
             Inl e \<Rightarrow> Inl e
           | Inr relation_ents \<Rightarrow>
               (case concept_ents (dom_ent s) relation_ents relation_concepts of
                  Inl e \<Rightarrow> Inl e
                | Inr rel_tail_ents \<Rightarrow>
                    Inr (remdups (concat (map (\<lambda>ent. case map_of relation_ents ent of
                                                       Some l \<Rightarrow> l | None \<Rightarrow> [])
                                             rel_tail_ents))))))"

definition concept_filter ::
  "sampler \<Rightarrow> string \<Rightarrow> nat \<Rightarrow> rng \<Rightarrow> nat \<Rightarrow> py_error + (nat list \<times> nat)" where
  "concept_filter s rel example_size rnd pos =
     (case candidate_pool s rel of
        Inl e \<Rightarrow> Inl e
      | Inr rel_tail_exs \<Rightarrow> choices rel_tail_exs example_size rnd pos)"

subsection \<open>\<^verbatim>\<open>__iter__\<close>\<close>

text \<open>\<^verbatim>\<open>[d[k] for k in ks]\<close>: \<^verbatim>\<open>KeyError\<close> at the first missing key.\<close>

fun lookup_all :: "('k, 'v) dict \<Rightarrow> 'k list \<Rightarrow> py_error + 'v list" where
  "lookup_all d [] = Inr []"
| "lookup_all d (k # ks) =
     (case dict_get d k of
        Inl e \<Rightarrow> Inl e
      | Inr v \<Rightarrow> (case lookup_all d ks of Inl e \<Rightarrow> Inl e | Inr vs \<Rightarrow> Inr (v # vs)))"

text \<open>
  The \<^verbatim>\<open>while len(sampled_exs) < cake_sample_cnt\<close> loop. It has no bound in the source, so
  the model counts the rounds it may still run: \<open>None\<close> says that the loop is still
  running when the rounds are used up. The diagnostic \<^verbatim>\<open>print\<close> block prints nothing in
  the model, but its lookups in \<^verbatim>\<open>id2example\<close> can raise.
\<close>

fun cake_loop ::
  "nat \<Rightarrow> sampler \<Rightarrow> rng \<Rightarrow> nat \<Rightarrow> int \<Rightarrow> nat list \<Rightarrow> string list
     \<Rightarrow> (py_error + (nat list \<times> nat)) option" where
  "cake_loop 0 s rnd pos cake_cnt sampled_exs sampled_relations =
     (if int (length sampled_exs) < cake_cnt then None else Some (Inr (sampled_exs, pos)))"
| "cake_loop (Suc fuel) s rnd pos cake_cnt sampled_exs sampled_relations =
     (if int (length sampled_exs) < cake_cnt
      then (case weighted_choice (map fst (smp_rel_ex_cnt s)) (map snd (smp_rel_ex_cnt s))
                   rnd pos of
              Inl e \<Rightarrow> Some (Inl e)
            | Inr (sampled_relation, pos1) \<Rightarrow>
                if sampled_relation \<notin> set sampled_relations
                then (case concept_filter s sampled_relation (batch_size s div 8) rnd pos1 of
                        Inl e \<Rightarrow> Some (Inl e)
                      | Inr (temp, pos2) \<Rightarrow>
                          (case lookup_all (smp_ex_hid s) temp of
                             Inl e \<Rightarrow> Some (Inl e)
                           | Inr head_id_list \<Rightarrow>
                               (case (if length (remdups head_id_list) > 20
                                      then lookup_all (smp_id2example s) temp else Inr []) of
                                  Inl e \<Rightarrow> Some (Inl e)
                                | Inr printed \<Rightarrow>
                                    cake_loop fuel s rnd pos2 cake_cnt
                                      (remdups (sampled_exs @ temp))
                                      (sampled_relations @ [sampled_relation]))))
                else cake_loop fuel s rnd pos1 cake_cnt sampled_exs sampled_relations)
      else Some (Inr (sampled_exs, pos)))"

text \<open>
  \<^verbatim>\<open>int(x)\<close> truncates toward zero. \<^verbatim>\<open>cake_ratio\<close> is a rational number in the model and the
  product \<^verbatim>\<open>args.batch_size * args.cake_ratio\<close> is exact.
\<close>

definition py_int :: "rat \<Rightarrow> int" where
  "py_int q = (if 0 \<le> q then \<lfloor>q\<rfloor> else \<lceil>q\<rceil>)"

definition cake_sample_cnt :: "config \<Rightarrow> int" where
  "cake_sample_cnt a = py_int (of_nat (args_batch_size a) * args_cake_ratio a)"

text \<open>
  One round of \<^verbatim>\<open>for i in range(self.length)\<close> up to the \<^verbatim>\<open>yield\<close>: the constrained portion
  that the loop leaves in \<^verbatim>\<open>sampled_exs\<close> and the random portion appended to it. A negative
  \<open>k\<close> makes \<^verbatim>\<open>random.choices\<close> draw nothing, as 0 does.
\<close>

definition batch_portions ::
  "nat \<Rightarrow> sampler \<Rightarrow> config \<Rightarrow> rng \<Rightarrow> nat \<Rightarrow> (py_error + (nat list \<times> nat list \<times> nat)) option" where
  "batch_portions fuel s a rnd pos =
     (case cake_loop fuel s rnd pos (cake_sample_cnt a) [] [] of
        None \<Rightarrow> None
      | Some (Inl e) \<Rightarrow> Some (Inl e)
      | Some (Inr (sampled_exs, pos1)) \<Rightarrow>
          (let random_sample_cnt = int (args_batch_size a) - cake_sample_cnt a
           in case choices [0..<smp_ex_cnt s] (nat random_sample_cnt) rnd pos1 of
                Inl e \<Rightarrow> Some (Inl e)
              | Inr (random_exs, pos2) \<Rightarrow> Some (Inr (sampled_exs, random_exs, pos2))))"

definition next_batch ::
  "nat \<Rightarrow> sampler \<Rightarrow> config \<Rightarrow> rng \<Rightarrow> nat \<Rightarrow> (py_error + (nat list \<times> nat)) option" where
  "next_batch fuel s a rnd pos =
     (case batch_portions fuel s a rnd pos of
        None \<Rightarrow> None
      | Some (Inl e) \<Rightarrow> Some (Inl e)
      | Some (Inr (sampled_exs, random_exs, pos')) \<Rightarrow>
          Some (Inr (take (batch_size s) (sampled_exs @ random_exs), pos')))"

text \<open>
  The generator \<^verbatim>\<open>__iter__\<close>: the batches it yields, and how it ends: exhausted after its
  last batch, by an exception, or still inside a \<^verbatim>\<open>while\<close> loop after \<open>fuel\<close> rounds of it.
\<close>

datatype outcome = Exhausted | Raised py_error | Unfinished

fun iter_from ::
  "nat \<Rightarrow> nat \<Rightarrow> sampler \<Rightarrow> config \<Rightarrow> rng \<Rightarrow> nat \<Rightarrow> nat list list \<times> outcome" where
  "iter_from 0 fuel s a rnd pos = ([], Exhausted)"
| "iter_from (Suc n) fuel s a rnd pos =
     (case next_batch fuel s a rnd pos of
        None \<Rightarrow> ([], Unfinished)
      | Some (Inl e) \<Rightarrow> ([], Raised e)
      | Some (Inr (b, pos')) \<Rightarrow>
          (case iter_from n fuel s a rnd pos' of (bs, out) \<Rightarrow> (b # bs, out)))"

definition sampler_iter ::
  "nat \<Rightarrow> sampler \<Rightarrow> config \<Rightarrow> rng \<Rightarrow> nat \<Rightarrow> nat list list \<times> outcome" where
  "sampler_iter fuel s a rnd pos = iter_from (smp_length s) fuel s a rnd pos"

section \<open>\<^verbatim>\<open>Dataset.ds_info\<close> and the objects it shares\<close>

text \<open>
  Whether a change made through the dictionary that \<^verbatim>\<open>ds_info\<close> returns reaches the dataset
  depends on which objects the two share, so this part of the model has an explicit
  store: a list of objects, an address being a position in it. A dictionary whose values
  are objects (\<^verbatim>\<open>rel2ent_t\<close> and its inner dictionaries) holds their addresses. A new object
  goes to the end of the store. \<^verbatim>\<open>copy(x)\<close> is a shallow copy: a new object with the entries
  of \<open>x\<close>, addresses included. Writing another object at an address stands for any
  in-place change of the object there.
\<close>

datatype pyobj =
  StrList "string list" | IdxList "nat list" | ExList "example list"
  | RefDict "(string, nat) dict" | CntDict "(string, nat) dict"
  | HidDict "(nat, string) dict" | ExDict "(nat, example) dict"

type_synonym store = "pyobj list"

definition alloc :: "store \<Rightarrow> pyobj \<Rightarrow> nat \<times> store" where
  "alloc h ob = (length h, h @ [ob])"


record dataset_obj =
  self_examples :: nat
  self_rels :: nat
  self_rel2ent_t :: nat
  self_rel_ex_cnt :: nat
  self_ex_hid :: nat
  self_idx2example :: nat

record info_obj =
  ret_rels :: nat
  ret_rel2ent_t :: nat
  ret_rel_ex_cnt :: nat
  ret_ex_cnt :: nat
  ret_ex_hid :: nat
  ret_id2example :: nat

text \<open>
  The attributes of a \<^verbatim>\<open>Dataset\<close> and the values of the dictionary that \<^verbatim>\<open>ds_info\<close> returns, as
  addresses (\<^verbatim>\<open>ex_cnt\<close> is a number).
\<close>

definition read_examples :: "store \<Rightarrow> nat \<Rightarrow> example list" where
  "read_examples h a = (case h ! a of ExList l \<Rightarrow> l | _ \<Rightarrow> [])"


text \<open>
  What the store holds behind an address, and the index structures as the dataset and as
  the holder of the returned dictionary see them.
\<close>

definition read_strs :: "store \<Rightarrow> nat \<Rightarrow> string list" where
  "read_strs h a = (case h ! a of StrList l \<Rightarrow> l | _ \<Rightarrow> [])"

definition read_bucket :: "store \<Rightarrow> nat \<Rightarrow> nat list" where
  "read_bucket h a = (case h ! a of IdxList l \<Rightarrow> l | _ \<Rightarrow> [])"

definition refs_of :: "pyobj \<Rightarrow> (string, nat) dict" where
  "refs_of ob = (case ob of RefDict d \<Rightarrow> d | _ \<Rightarrow> [])"

definition read_inner :: "store \<Rightarrow> nat \<Rightarrow> (string, nat list) dict" where
  "read_inner h a = map (\<lambda>e. (fst e, read_bucket h (snd e))) (refs_of (h ! a))"

definition read_rel2ent_t :: "store \<Rightarrow> nat \<Rightarrow> (string, (string, nat list) dict) dict" where
  "read_rel2ent_t h a = map (\<lambda>e. (fst e, read_inner h (snd e))) (refs_of (h ! a))"

definition read_cnt :: "store \<Rightarrow> nat \<Rightarrow> (string, nat) dict" where
  "read_cnt h a = (case h ! a of CntDict d \<Rightarrow> d | _ \<Rightarrow> [])"

definition read_hid :: "store \<Rightarrow> nat \<Rightarrow> (nat, string) dict" where
  "read_hid h a = (case h ! a of HidDict d \<Rightarrow> d | _ \<Rightarrow> [])"

definition read_exs :: "store \<Rightarrow> nat \<Rightarrow> (nat, example) dict" where
  "read_exs h a = (case h ! a of ExDict d \<Rightarrow> d | _ \<Rightarrow> [])"

definition dataset_view :: "store \<Rightarrow> dataset_obj \<Rightarrow> info" where
  "dataset_view h self =
     \<lparr>info_rels = read_strs h (self_rels self),
      info_rel2ent_t = read_rel2ent_t h (self_rel2ent_t self),
      info_rel_ex_cnt = read_cnt h (self_rel_ex_cnt self),
      info_ex_cnt = length (read_examples h (self_examples self)),
      info_ex_hid = read_hid h (self_ex_hid self),
      info_id2example = read_exs h (self_idx2example self)\<rparr>"


text \<open>
  The addresses reachable from the dataset and from the returned dictionary; a dataset
  is well formed in a store that has an object at each of its addresses.
\<close>

definition nested_addrs :: "store \<Rightarrow> nat \<Rightarrow> nat list" where
  "nested_addrs h a =
     a # map snd (refs_of (h ! a))
       @ concat (map (\<lambda>e. map snd (refs_of (h ! snd e))) (refs_of (h ! a)))"

definition dataset_addrs :: "store \<Rightarrow> dataset_obj \<Rightarrow> nat list" where
  "dataset_addrs h self =
     [self_examples self, self_rels self, self_rel_ex_cnt self, self_ex_hid self,
      self_idx2example self] @ nested_addrs h (self_rel2ent_t self)"

definition info_addrs :: "store \<Rightarrow> info_obj \<Rightarrow> nat list" where
  "info_addrs h ret =
     [ret_rels ret, ret_rel_ex_cnt ret, ret_ex_hid ret, ret_id2example ret]
       @ nested_addrs h (ret_rel2ent_t ret)"

definition wf_dataset :: "store \<Rightarrow> dataset_obj \<Rightarrow> bool" where
  "wf_dataset h self = list_all (\<lambda>a. a < length h) (dataset_addrs h self)"

text \<open>
  The objects that \<^verbatim>\<open>Dataset.__init__\<close> has built, laid out in a store: every bucket and
  every inner dictionary is an object of its own, as in the source (a fresh \<open>[i]\<close> per
  assignment, a fresh \<open>{}\<close> per relation).
\<close>

fun alloc_all :: "store \<Rightarrow> pyobj list \<Rightarrow> nat list \<times> store" where
  "alloc_all h [] = ([], h)"
| "alloc_all h (ob # obs) =
     (case alloc h ob of (a, h1) \<Rightarrow>
      case alloc_all h1 obs of (addrs, h2) \<Rightarrow> (a # addrs, h2))"

definition store_inner :: "store \<Rightarrow> (string, nat list) dict \<Rightarrow> nat \<times> store" where
  "store_inner h inner =
     (case alloc_all h (map (\<lambda>e. IdxList (snd e)) inner) of (addrs, h1) \<Rightarrow>
        alloc h1 (RefDict (zip (map fst inner) addrs)))"

fun store_inners :: "store \<Rightarrow> (string, nat list) dict list \<Rightarrow> nat list \<times> store" where
  "store_inners h [] = ([], h)"
| "store_inners h (d # ds) =
     (case store_inner h d of (a, h1) \<Rightarrow>
      case store_inners h1 ds of (addrs, h2) \<Rightarrow> (a # addrs, h2))"

definition store_dataset :: "store \<Rightarrow> dataset \<Rightarrow> dataset_obj \<times> store" where
  "store_dataset h ds =
     (case alloc h (ExList (examples ds)) of (ae, h1) \<Rightarrow>
      case alloc h1 (StrList (rels ds)) of (ar, h2) \<Rightarrow>
      case store_inners h2 (map snd (rel2ent_t ds)) of (inners, h3) \<Rightarrow>
      case alloc h3 (RefDict (zip (map fst (rel2ent_t ds)) inners)) of (a2, h4) \<Rightarrow>
      case alloc h4 (CntDict (rel_ex_cnt ds)) of (ac, h5) \<Rightarrow>
      case alloc h5 (HidDict (ex_hid ds)) of (ah, h6) \<Rightarrow>
      case alloc h6 (ExDict (idx2example ds)) of (ax, h7) \<Rightarrow>
        (\<lparr>self_examples = ae, self_rels = ar, self_rel2ent_t = a2, self_rel_ex_cnt = ac,
          self_ex_hid = ah, self_idx2example = ax\<rparr>, h7))"


section \<open>A small concrete environment\<close>

text \<open>
  Modelled from the spec: \<^verbatim>\<open>reverse_triplet\<close> lives in the \<^verbatim>\<open>triplet\<close> module, which is not
  part of the file; the reversed triplet has the relation prefixed with \<^verbatim>\<open>inverse\<close> and a
  space, and head and tail swapped.
\<close>

definition spec_reverse_triplet :: "triplet_obj \<Rightarrow> triplet_obj" where
  "spec_reverse_triplet ob =
     \<lparr>obj_head_id = obj_tail_id ob, obj_relation = ''inverse '' @ obj_relation ob,
      obj_tail_id = obj_head_id ob\<rparr>"

text \<open>
  An environment to run the model on: one input file \<^verbatim>\<open>a.json\<close> with the two triplets
  \<open>(e1, r1, e2)\<close> and \<open>(e3, r2, e4)\<close>, an entity directory that names every entity by its
  id, no link graph, a tokenizer that returns no token.
\<close>

definition demo_env :: env where
  "demo_env =
     \<lparr>args = \<lparr>args_task = ''wiki5m_ind'', args_use_link_graph = False, args_is_test = False,
              args_max_num_tokens = 50, args_batch_size = 4, args_cake_ratio = 1 / 2\<rparr>,
      entity_dict = (\<lambda>eid. \<lparr>entity = eid, entity_desc = []\<rparr>),
      link_graph = (\<lambda>eid. []),
      tokenizer = (\<lambda>txt text_pair max_length. \<lparr>input_ids = [], token_type_ids = []\<rparr>),
      reverse_triplet = spec_reverse_triplet,
      json_files = (\<lambda>path. if path = ''a.json''
                           then Some [\<lparr>obj_head_id = ''e1'', obj_relation = ''r1'', obj_tail_id = ''e2''\<rparr>,
                                      \<lparr>obj_head_id = ''e3'', obj_relation = ''r2'', obj_tail_id = ''e4''\<rparr>]
                           else None)\<rparr>"



text \<open>
  A sampler to run the model on. Its dataset has the single example \<open>(h, r, t)\<close>; relation
  \<open>r\<close> has the one tail concept 1, whose only entity is \<open>ent\<close>: with \<open>ent = t\<close> the
  candidate pool of \<open>r\<close> is example 0, with any other entity it is empty.
\<close>

definition demo_tables :: "string \<Rightarrow> commonsense" where
  "demo_tables ent =
     \<lparr>cs_ent_dom = [], cs_dom_ent = [(''1'', [ent])], cs_rel2dom_h = [(''r'', [ConceptInt 1])],
      cs_rel2dom_t = [(''r'', [ConceptInt 1])], cs_rel2nn = [(''r'', 3)]\<rparr>"

definition demo_info :: info where
  "demo_info =
     \<lparr>info_rels = [''r''], info_rel2ent_t = [(''r'', [(''t'', [0])])],
      info_rel_ex_cnt = [(''r'', 1)], info_ex_cnt = 1, info_ex_hid = [(0, ''h'')],
      info_id2example = [(0, \<lparr>head_id = ''h'', relation = ''r'', tail_id = ''t''\<rparr>)]\<rparr>"

definition demo_args :: "nat \<Rightarrow> rat \<Rightarrow> config" where
  "demo_args bs ratio =
     \<lparr>args_task = ''wiki5m_ind'', args_use_link_graph = False, args_is_test = False,
      args_max_num_tokens = 50, args_batch_size = bs, args_cake_ratio = ratio\<rparr>"

text \<open>
  The dataset of the single example \<open>(h, r, t)\<close>, its objects in an empty store, and what
  \<^verbatim>\<open>ds_info\<close> returns for it.
\<close>

definition demo_dataset :: dataset where
  "demo_dataset =
     index_examples demo_env 0 [\<lparr>head_id = ''h'', relation = ''r'', tail_id = ''t''\<rparr>]
       \<lparr>path_list = [[]], task = ''wiki5m_ind'',
        examples = [\<lparr>head_id = ''h'', relation = ''r'', tail_id = ''t''\<rparr>], rels = [],
        rel2ent_t = [], rel_ex_cnt = [], rel_hent = [], ex_hid = [], idx2example = []\<rparr>"

definition demo_store :: "dataset_obj \<times> store" where
  "demo_store = store_dataset [] demo_dataset"


section \<open>Properties of \<^verbatim>\<open>to_indices_and_mask\<close>\<close>

lemma fold_max_Max: "fold max xs (x::nat) = Max (insert x (set xs))"
proof (induction xs arbitrary: x)
  case Nil
  then show ?case by simp
next
  case (Cons y ys)
  have "Max (insert (max y x) (set ys)) = Max (insert x (insert y (set ys)))"
    by (cases "set ys = {}") (simp_all add: max.commute max.left_commute)
  with Cons show ?case by simp
qed

lemma py_max_Max: "xs \<noteq> [] \<Longrightarrow> py_max xs = Inr (Max (set xs))"
  by (cases xs) (simp_all add: fold_max_Max)

text \<open>
  What the loop computes, row by row: the rows from \<open>i\<close> on receive their tensor as a
  prefix, the others are untouched; the loop does not raise when every tensor fits in
  a row.
\<close>

lemma fill_rows_rows:
  assumes "i + length ts \<le> length indices"
    and "\<forall>j < length indices. length (indices ! j) = w"
    and "\<forall>t \<in> set ts. length t \<le> w"
  shows "\<exists>ind' mask'. fill_rows i ts indices msk = Inr (ind', mask')
           \<and> length ind' = length indices
           \<and> (\<forall>j < length indices. ind' ! j =
                (if i \<le> j \<and> j < i + length ts
                 then ts ! (j - i) @ drop (length (ts ! (j - i))) (indices ! j)
                 else indices ! j))
           \<and> mask' = map_option (\<lambda>m. map (\<lambda>j.
                (if i \<le> j \<and> j < i + length ts
                 then fill_prefix (m ! j) (length (ts ! (j - i))) 1
                 else m ! j)) [0..<length m]) msk"
  using assms
proof (induction ts arbitrary: i indices msk)
  case Nil
  have no: "(i \<le> j \<and> j < i) = False" for j by auto
  show ?case by (cases msk) (simp_all add: no map_nth)
next
  case (Cons t ts)
  have i_lt: "i < length indices" using Cons.prems(1) by simp
  have t_le: "length t \<le> w" using Cons.prems(3) by simp
  define row where "row = t @ drop (length t) (indices ! i)"
  have cp: "copy_prefix (indices ! i) t = Inr row"
    using i_lt t_le Cons.prems(2) by (simp add: copy_prefix_def row_def)
  have row_len: "length row = w"
    using i_lt t_le Cons.prems(2) by (simp add: row_def)
  let ?indices = "indices[i := row]"
  let ?msk = "map_option (\<lambda>m. m[i := fill_prefix (m ! i) (length t) 1]) msk"
  have p1: "Suc i + length ts \<le> length ?indices" using Cons.prems(1) by simp
  have p2: "\<forall>j < length ?indices. length (?indices ! j) = w"
    using Cons.prems(2) row_len i_lt by (auto simp: nth_list_update)
  have p3: "\<forall>t \<in> set ts. length t \<le> w" using Cons.prems(3) by simp
  from Cons.IH [OF p1 p2 p3, of ?msk]
  obtain ind' mask' where
    run: "fill_rows (Suc i) ts ?indices ?msk = Inr (ind', mask')"
    and len: "length ind' = length ?indices"
    and rows: "\<forall>j < length ?indices. ind' ! j =
                (if Suc i \<le> j \<and> j < Suc i + length ts
                 then ts ! (j - Suc i) @ drop (length (ts ! (j - Suc i))) (?indices ! j)
                 else ?indices ! j)"
    and msk: "mask' = map_option (\<lambda>m. map (\<lambda>j.
                (if Suc i \<le> j \<and> j < Suc i + length ts
                 then fill_prefix (m ! j) (length (ts ! (j - Suc i))) 1
                 else m ! j)) [0..<length m]) ?msk"
    by blast
  have run': "fill_rows i (t # ts) indices msk = Inr (ind', mask')"
    using cp run by simp
  have rows': "\<forall>j < length indices. ind' ! j =
                (if i \<le> j \<and> j < i + length (t # ts)
                 then (t # ts) ! (j - i) @ drop (length ((t # ts) ! (j - i))) (indices ! j)
                 else indices ! j)"
  proof (intro allI impI)
    fix j assume j: "j < length indices"
    show "ind' ! j =
           (if i \<le> j \<and> j < i + length (t # ts)
            then (t # ts) ! (j - i) @ drop (length ((t # ts) ! (j - i))) (indices ! j)
            else indices ! j)"
    proof (cases "j = i")
      case True
      then show ?thesis using rows j by (simp add: row_def)
    next
      case False
      then show ?thesis using rows j
        by (auto simp: nth_Cons' nth_list_update Suc_diff_Suc)
    qed
  qed
  have msk': "mask' = map_option (\<lambda>m. map (\<lambda>j.
                (if i \<le> j \<and> j < i + length (t # ts)
                 then fill_prefix (m ! j) (length ((t # ts) ! (j - i))) 1
                 else m ! j)) [0..<length m]) msk"
  proof (cases msk)
    case None
    then show ?thesis using msk by simp
  next
    case (Some m)
    have "map (\<lambda>j. if Suc i \<le> j \<and> j < Suc i + length ts
                 then fill_prefix (m[i := fill_prefix (m ! i) (length t) 1] ! j)
                        (length (ts ! (j - Suc i))) 1
                 else m[i := fill_prefix (m ! i) (length t) 1] ! j) [0..<length m]
        = map (\<lambda>j. if i \<le> j \<and> j < i + length (t # ts)
                 then fill_prefix (m ! j) (length ((t # ts) ! (j - i))) 1
                 else m ! j) [0..<length m]"
      by (rule map_cong [OF refl])
         (auto simp: nth_Cons' nth_list_update Suc_diff_Suc not_less_eq_eq dest: le_antisym)
    then show ?thesis using msk Some by simp
  qed
  show ?case using run' len rows' msk' by simp
qed

lemma to_indices_and_mask_run:
  fixes batch :: "long_tensor list" and pad :: "64 word"
  assumes "batch \<noteq> []"
  defines "mx \<equiv> Max (length ` set batch)"
  defines "padded \<equiv> map (\<lambda>t. t @ replicate (mx - length t) pad) batch"
  defines "valid \<equiv> map (\<lambda>t. replicate (length t) (1::8 word) @ replicate (mx - length t) 0) batch"
  shows "to_indices_and_mask batch pad True = Inr (IndicesAndMask padded valid)"
    and "to_indices_and_mask batch pad False = Inr (Indices padded)"
proof -
  let ?n = "length batch"
  let ?ind0 = "replicate ?n (replicate mx pad)"
  let ?m0 = "replicate ?n (replicate mx (0::8 word))"
  have mx: "py_max (map length batch) = Inr mx"
    using assms(1) by (simp add: py_max_Max mx_def)
  have fits: "\<forall>t \<in> set batch. length t \<le> mx"
    by (simp add: mx_def)
  have a1: "0 + length batch \<le> length ?ind0" by simp
  have a2: "\<forall>j < length ?ind0. length (?ind0 ! j) = mx" by simp
  have rows: "ind' = padded"
    if len: "length ind' = length ?ind0"
      and r: "\<forall>j < length ?ind0. ind' ! j =
                (if 0 \<le> j \<and> j < 0 + length batch
                 then batch ! (j - 0) @ drop (length (batch ! (j - 0))) (?ind0 ! j)
                 else ?ind0 ! j)" for ind'
  proof (rule nth_equalityI)
    show "length ind' = length padded" using len by (simp add: padded_def)
  next
    fix j assume "j < length ind'"
    then have j: "j < length batch" using len by simp
    then show "ind' ! j = padded ! j" using r by (simp add: padded_def)
  qed
  have vrows: "map (\<lambda>j. if 0 \<le> j \<and> j < 0 + length batch
                 then fill_prefix (?m0 ! j) (length (batch ! (j - 0))) 1
                 else ?m0 ! j) [0..<length ?m0] = valid"
  proof (rule nth_equalityI)
    show "length (map (\<lambda>j. if 0 \<le> j \<and> j < 0 + length batch
                 then fill_prefix (?m0 ! j) (length (batch ! (j - 0))) 1
                 else ?m0 ! j) [0..<length ?m0]) = length valid"
      by (simp add: valid_def)
  next
    fix j assume "j < length (map (\<lambda>j. if 0 \<le> j \<and> j < 0 + length batch
                 then fill_prefix (?m0 ! j) (length (batch ! (j - 0))) 1
                 else ?m0 ! j) [0..<length ?m0])"
    then have j: "j < length batch" by simp
    then have "length (batch ! j) \<le> mx" using fits by simp
    then show "map (\<lambda>j. if 0 \<le> j \<and> j < 0 + length batch
                 then fill_prefix (?m0 ! j) (length (batch ! (j - 0))) 1
                 else ?m0 ! j) [0..<length ?m0] ! j = valid ! j"
      using j by (simp add: valid_def fill_prefix_def min_def)
  qed
  from fill_rows_rows [OF a1 a2 fits, of "Some ?m0"] rows vrows
  have t: "fill_rows 0 batch ?ind0 (Some ?m0) = Inr (padded, Some valid)"
    by auto
  from fill_rows_rows [OF a1 a2 fits, of None] rows
  have f: "fill_rows 0 batch ?ind0 None = Inr (padded, None)"
    by auto
  show "to_indices_and_mask batch pad True = Inr (IndicesAndMask padded valid)"
    using mx t by (simp add: to_indices_and_mask_def)
  show "to_indices_and_mask batch pad False = Inr (Indices padded)"
    using mx f by (simp add: to_indices_and_mask_def)
qed

text \<open>
  Claim C6. For a non-empty list of integer sequences, \<^verbatim>\<open>to_indices_and_mask\<close> returns a
  matrix with one row per sequence; row \<open>i\<close> is sequence \<open>i\<close> (its whole length) followed by
  \<^verbatim>\<open>pad_token_id\<close> up to the longest length of the batch, and row \<open>i\<close> of the mask is 1 on
  that prefix and 0 after it. With \<^verbatim>\<open>need_mask=False\<close> the same matrix is returned alone.
\<close>

theorem to_indices_and_mask_pads_rows:
  assumes "batch \<noteq> []"
  shows "\<exists>indices msk.
           to_indices_and_mask batch pad True = Inr (IndicesAndMask indices msk)
         \<and> to_indices_and_mask batch pad False = Inr (Indices indices)
         \<and> length indices = length batch \<and> length msk = length batch
         \<and> (\<forall>i < length batch.
               indices ! i
                 = batch ! i @ replicate (Max (length ` set batch) - length (batch ! i)) pad
             \<and> take (length (batch ! i)) (indices ! i) = batch ! i
             \<and> msk ! i
                 = replicate (length (batch ! i)) 1
                   @ replicate (Max (length ` set batch) - length (batch ! i)) 0)"
  using to_indices_and_mask_run [OF assms, of pad] by simp

theorem to_indices_and_mask_pads_rows_witness:
  "\<exists>indices msk.
     to_indices_and_mask [[5, 6, 7], [8]] 0 True = Inr (IndicesAndMask indices msk)
   \<and> to_indices_and_mask [[5, 6, 7], [8]] 0 False = Inr (Indices indices)
   \<and> indices ! 0 = [5, 6, 7] \<and> indices ! 1 = [8, 0, 0]
   \<and> msk ! 0 = [1, 1, 1] \<and> msk ! 1 = [1, 0, 0]"
proof -
  have ne: "[[5, 6, 7], [8 :: 64 word]] \<noteq> []" by simp
  from to_indices_and_mask_pads_rows [OF ne, of 0]
  obtain indices msk where
    t: "to_indices_and_mask [[5, 6, 7], [8]] 0 True = Inr (IndicesAndMask indices msk)"
    and f: "to_indices_and_mask [[5, 6, 7], [8]] 0 False = Inr (Indices indices)"
    and rows: "\<forall>i < length [[5, 6, 7], [8 :: 64 word]].
               indices ! i
                 = [[5, 6, 7], [8]] ! i
                   @ replicate (Max (length ` set [[5, 6, 7], [8 :: 64 word]])
                                 - length ([[5, 6, 7], [8 :: 64 word]] ! i)) 0
             \<and> take (length ([[5, 6, 7], [8 :: 64 word]] ! i)) (indices ! i)
                 = [[5, 6, 7], [8]] ! i
             \<and> msk ! i
                 = replicate (length ([[5, 6, 7], [8 :: 64 word]] ! i)) 1
                   @ replicate (Max (length ` set [[5, 6, 7], [8 :: 64 word]])
                                 - length ([[5, 6, 7], [8 :: 64 word]] ! i)) 0"
    by blast
  have r0: "indices ! 0 = [5, 6, 7] \<and> msk ! 0 = [1, 1, 1]"
    using rows [rule_format, of 0] by (simp add: numeral_3_eq_3)
  have r1: "indices ! 1 = [8, 0, 0] \<and> msk ! 1 = [1, 0, 0]"
    using rows [rule_format, of 1] by (simp add: numeral_2_eq_2)
  show ?thesis using t f r0 r1 by blast
qed

text \<open>
  Claim C9. \<^verbatim>\<open>to_indices_and_mask\<close> needs a non-empty list: on the empty list the maximum
  of the row lengths is taken over nothing and the call raises \<^verbatim>\<open>ValueError\<close>; the empty
  list is the only input on which it raises.
\<close>

theorem to_indices_and_mask_empty_raises:
  "to_indices_and_mask [] pad need_mask = Inl ValueError
   \<and> ((\<exists>e. to_indices_and_mask batch pad need_mask = Inl e) = (batch = []))"
proof -
  have e: "to_indices_and_mask [] pad need_mask = Inl ValueError"
    by (simp add: to_indices_and_mask_def)
  have "\<not> (\<exists>e. to_indices_and_mask batch pad need_mask = Inl e)" if "batch \<noteq> []"
    using to_indices_and_mask_run [OF that, of pad] by (cases need_mask) simp_all
  with e show ?thesis by (cases "batch = []") auto
qed

section \<open>Properties of \<^verbatim>\<open>Example\<close>\<close>



section \<open>Properties of \<^verbatim>\<open>load_data\<close> and \<^verbatim>\<open>Dataset\<close>\<close>









text \<open>
  What \<^verbatim>\<open>Dataset.__init__\<close> leaves in \<^verbatim>\<open>rel2ent_t\<close>, for any list of examples: index \<open>k\<close> is in
  the bucket of \<open>(r, t)\<close> exactly when example \<open>k\<close> has relation \<open>r\<close> and tail \<open>t\<close> and no
  later example has both. So an index is never in two buckets, and it is in one unless a
  later example shares its relation and tail.
\<close>

lemma map_of_dict_set: "map_of (dict_set k v d) = (map_of d)(k \<mapsto> v)"
  by (induction d) (auto simp: fun_eq_iff)

lemma bucket_index_step:
  "bucket (rel2ent_t (index_step E i ex ds)) r t =
     (if r = relation ex \<and> t = tail_id ex then [i] else bucket (rel2ent_t ds) r t)"
  by (auto simp: index_step_def bucket_def map_of_dict_set split: option.splits)

lemma index_examples_snoc:
  "index_examples E i (exs @ [ex]) ds
     = index_step E (i + length exs) ex (index_examples E i exs ds)"
  by (induction exs arbitrary: i ds) simp_all

lemma bucket_index_examples:
  assumes "rel2ent_t ds = []"
  shows "k \<in> set (bucket (rel2ent_t (index_examples E i exs ds)) r t)
           \<longleftrightarrow> (\<exists>j < length exs. k = i + j \<and> relation (exs ! j) = r \<and> tail_id (exs ! j) = t
                  \<and> (\<forall>j' < length exs. j < j' \<longrightarrow>
                        \<not> (relation (exs ! j') = r \<and> tail_id (exs ! j') = t)))"
proof (induction exs rule: rev_induct)
  case Nil
  show ?case using assms by (simp add: bucket_def)
next
  case (snoc ex exs)
  let ?n = "length exs"
  show ?case
  proof (cases "r = relation ex \<and> t = tail_id ex")
    case True
    have "(\<exists>j < Suc ?n. k = i + j \<and> relation ((exs @ [ex]) ! j) = r
              \<and> tail_id ((exs @ [ex]) ! j) = t
              \<and> (\<forall>j' < Suc ?n. j < j' \<longrightarrow>
                    \<not> (relation ((exs @ [ex]) ! j') = r \<and> tail_id ((exs @ [ex]) ! j') = t)))
          \<longleftrightarrow> k = i + ?n"
    proof
      assume "\<exists>j < Suc ?n. k = i + j \<and> relation ((exs @ [ex]) ! j) = r
              \<and> tail_id ((exs @ [ex]) ! j) = t
              \<and> (\<forall>j' < Suc ?n. j < j' \<longrightarrow>
                    \<not> (relation ((exs @ [ex]) ! j') = r \<and> tail_id ((exs @ [ex]) ! j') = t))"
      then obtain j where j: "j < Suc ?n" "k = i + j"
        and later: "\<forall>j' < Suc ?n. j < j' \<longrightarrow>
                    \<not> (relation ((exs @ [ex]) ! j') = r \<and> tail_id ((exs @ [ex]) ! j') = t)"
        by blast
      have "\<not> j < ?n"
      proof
        assume "j < ?n"
        with later [rule_format, of ?n] True show False by simp
      qed
      with j show "k = i + ?n" by simp
    next
      assume "k = i + ?n"
      with True show "\<exists>j < Suc ?n. k = i + j \<and> relation ((exs @ [ex]) ! j) = r
              \<and> tail_id ((exs @ [ex]) ! j) = t
              \<and> (\<forall>j' < Suc ?n. j < j' \<longrightarrow>
                    \<not> (relation ((exs @ [ex]) ! j') = r \<and> tail_id ((exs @ [ex]) ! j') = t))"
        by (intro exI [of _ ?n]) simp
    qed
    moreover have "bucket (rel2ent_t (index_examples E i (exs @ [ex]) ds)) r t = [i + ?n]"
      using True by (simp add: index_examples_snoc bucket_index_step)
    ultimately show ?thesis by simp
  next
    case False
    have "(\<exists>j < Suc ?n. k = i + j \<and> relation ((exs @ [ex]) ! j) = r
              \<and> tail_id ((exs @ [ex]) ! j) = t
              \<and> (\<forall>j' < Suc ?n. j < j' \<longrightarrow>
                    \<not> (relation ((exs @ [ex]) ! j') = r \<and> tail_id ((exs @ [ex]) ! j') = t)))
          \<longleftrightarrow> (\<exists>j < ?n. k = i + j \<and> relation (exs ! j) = r \<and> tail_id (exs ! j) = t
                  \<and> (\<forall>j' < ?n. j < j' \<longrightarrow>
                        \<not> (relation (exs ! j') = r \<and> tail_id (exs ! j') = t)))"
      (is "?L \<longleftrightarrow> ?R")
    proof
      assume ?L
      then obtain j where j: "j < Suc ?n" "k = i + j"
        "relation ((exs @ [ex]) ! j) = r" "tail_id ((exs @ [ex]) ! j) = t"
        and later: "\<forall>j' < Suc ?n. j < j' \<longrightarrow>
                    \<not> (relation ((exs @ [ex]) ! j') = r \<and> tail_id ((exs @ [ex]) ! j') = t)"
        by blast
      have jn: "j < ?n" using j False by (cases "j = ?n") auto
      have "\<forall>j' < ?n. j < j' \<longrightarrow> \<not> (relation (exs ! j') = r \<and> tail_id (exs ! j') = t)"
      proof (intro allI impI)
        fix j' assume a: "j' < ?n" "j < j'"
        with later [rule_format, of j'] show "\<not> (relation (exs ! j') = r \<and> tail_id (exs ! j') = t)"
          by (simp add: nth_append)
      qed
      with j jn show ?R by (auto simp: nth_append)
    next
      assume ?R
      then obtain j where j: "j < ?n" "k = i + j" "relation (exs ! j) = r" "tail_id (exs ! j) = t"
        and later: "\<forall>j' < ?n. j < j' \<longrightarrow> \<not> (relation (exs ! j') = r \<and> tail_id (exs ! j') = t)"
        by blast
      have "\<forall>j' < Suc ?n. j < j' \<longrightarrow>
                    \<not> (relation ((exs @ [ex]) ! j') = r \<and> tail_id ((exs @ [ex]) ! j') = t)"
      proof (intro allI impI)
        fix j' assume a: "j' < Suc ?n" "j < j'"
        show "\<not> (relation ((exs @ [ex]) ! j') = r \<and> tail_id ((exs @ [ex]) ! j') = t)"
        proof (cases "j' = ?n")
          case True
          then show ?thesis using False by auto
        next
          case False
          then have "j' < ?n" using a by simp
          with later a show ?thesis by (simp add: nth_append)
        qed
      qed
      with j show ?L by (intro exI [of _ j]) (simp add: nth_append)
    qed
    moreover have "bucket (rel2ent_t (index_examples E i (exs @ [ex]) ds)) r t
                     = bucket (rel2ent_t (index_examples E i exs ds)) r t"
      using False by (auto simp: index_examples_snoc bucket_index_step)
    ultimately show ?thesis using snoc.IH by simp
  qed
qed

lemma dataset_bucket_iff:
  assumes "Dataset E path tsk (Some exs) = Inr ds" and "exs \<noteq> []"
  shows "k \<in> set (bucket (rel2ent_t ds) r t)
           \<longleftrightarrow> k < length exs \<and> relation (exs ! k) = r \<and> tail_id (exs ! k) = t
               \<and> (\<forall>j < length exs. k < j \<longrightarrow>
                     \<not> (relation (exs ! j) = r \<and> tail_id (exs ! j) = t))"
proof -
  from assms have
    "ds = index_examples E 0 exs
            \<lparr>path_list = split_on (CHR '','') path, task = tsk, examples = exs, rels = [],
             rel2ent_t = [], rel_ex_cnt = [], rel_hent = [], ex_hid = [], idx2example = []\<rparr>"
    by (auto simp: Dataset_def Let_def split: if_splits)
  then show ?thesis
    by (simp add: bucket_index_examples)
qed

text \<open>
  Claim C1, at two examples that share relation and tail. \<^verbatim>\<open>Dataset.__init__\<close> assigns
  the one-element list \<open>[i]\<close> to the bucket in both branches, so the second example
  replaces the first: index 0 is in no bucket of \<^verbatim>\<open>rel2ent_t\<close>, although \<^verbatim>\<open>rel_ex_cnt\<close> counts
  both examples.
\<close>

theorem dataset_shared_bucket_overwritten:
  "\<exists>ds. Dataset E [] tsk
          (Some [\<lparr>head_id = ''h1'', relation = ''r'', tail_id = ''t''\<rparr>,
                 \<lparr>head_id = ''h2'', relation = ''r'', tail_id = ''t''\<rparr>]) = Inr ds
        \<and> dataset_len ds = 2
        \<and> rel2ent_t ds = [(''r'', [(''t'', [1])])]
        \<and> rel_ex_cnt ds = [(''r'', 2)]
        \<and> buckets_of (rel2ent_t ds) 0 = []
        \<and> buckets_of (rel2ent_t ds) 1 = [(''r'', ''t'')]"
  by (simp add: Dataset_def Let_def index_step_def buckets_of_def dataset_len_def)

section \<open>Properties of \<^verbatim>\<open>RelationBatchSampler\<close>\<close>

lemma demo_info_dataset:
  "\<exists>ds. Dataset E [] tsk (Some [\<lparr>head_id = ''h'', relation = ''r'', tail_id = ''t''\<rparr>]) = Inr ds
        \<and> ds_info_values ds = demo_info"
  by (simp add: Dataset_def Let_def index_step_def ds_info_values_def demo_info_def)


lemma choices_length:
  "choices population k rnd pos = Inr (xs, pos') \<Longrightarrow> length xs = k \<and> pos' = pos + k"
  by (auto simp: choices_def split: if_splits)

lemma choices_set:
  "choices population k rnd pos = Inr (xs, pos') \<Longrightarrow> set xs \<subseteq> set population"
  by (auto simp: choices_def split: if_splits)

lemma cake_loop_exit:
  "cake_loop fuel s rnd pos cnt exs0 rels0 = Some (Inr (exs, pos'))
     \<Longrightarrow> cnt \<le> int (length exs)
         \<and> (distinct exs0 \<longrightarrow> distinct exs)
         \<and> (cnt \<le> int (length exs0) \<longrightarrow> exs = exs0 \<and> pos' = pos)"
proof (induction fuel arbitrary: pos exs0 rels0)
  case 0
  then show ?case by (auto split: if_splits)
next
  case (Suc fuel)
  show ?case
  proof (cases "int (length exs0) < cnt")
    case False
    with Suc.prems show ?thesis by auto
  next
    case True
    from Suc.prems True obtain rel pos1 where
      w: "weighted_choice (map fst (smp_rel_ex_cnt s)) (map snd (smp_rel_ex_cnt s)) rnd pos
            = Inr (rel, pos1)"
      by (auto split: sum.splits)
    show ?thesis
    proof (cases "rel \<in> set rels0")
      case True
      with Suc.prems \<open>int (length exs0) < cnt\<close> w
      have "cake_loop fuel s rnd pos1 cnt exs0 rels0 = Some (Inr (exs, pos'))" by simp
      from Suc.IH [OF this] \<open>int (length exs0) < cnt\<close> show ?thesis by auto
    next
      case False
      with Suc.prems \<open>int (length exs0) < cnt\<close> w obtain temp pos2 where
        "cake_loop fuel s rnd pos2 cnt (remdups (exs0 @ temp)) (rels0 @ [rel])
           = Some (Inr (exs, pos'))"
        by (auto split: sum.splits if_splits)
      from Suc.IH [OF this] \<open>int (length exs0) < cnt\<close> show ?thesis by auto
    qed
  qed
qed

lemma batch_portions_exit:
  assumes "batch_portions fuel s a rnd pos = Some (Inr (c, r, pos'))"
  shows "cake_sample_cnt a \<le> int (length c)" and "distinct c"
    and "cake_sample_cnt a \<le> 0 \<longrightarrow> c = []"
    and "length r = nat (int (args_batch_size a) - cake_sample_cnt a)"
    and "set r \<subseteq> {0..<smp_ex_cnt s}"
proof -
  from assms obtain pos1 where
    l: "cake_loop fuel s rnd pos (cake_sample_cnt a) [] [] = Some (Inr (c, pos1))"
    and ch: "choices [0..<smp_ex_cnt s] (nat (int (args_batch_size a) - cake_sample_cnt a))
               rnd pos1 = Inr (r, pos')"
    by (auto simp: batch_portions_def Let_def split: option.splits sum.splits)
  from cake_loop_exit [OF l]
  show "cake_sample_cnt a \<le> int (length c)" and "distinct c"
    and "cake_sample_cnt a \<le> 0 \<longrightarrow> c = []"
    by auto
  from choices_length [OF ch]
  show "length r = nat (int (args_batch_size a) - cake_sample_cnt a)" by simp
  from choices_set [OF ch] show "set r \<subseteq> {0..<smp_ex_cnt s}" by simp
qed

lemma next_batch_length:
  assumes "next_batch fuel s a rnd pos = Some (Inr (b, pos'))"
    and "batch_size s \<le> args_batch_size a"
  shows "length b = batch_size s"
proof -
  from assms(1) obtain c r where
    p: "batch_portions fuel s a rnd pos = Some (Inr (c, r, pos'))"
    and b: "b = take (batch_size s) (c @ r)"
    by (auto simp: next_batch_def split: option.splits sum.splits)
  from batch_portions_exit(1,4) [OF p]
  have "int (args_batch_size a) \<le> int (length (c @ r))" by simp
  with assms(2) b show ?thesis by simp
qed

text \<open>
  Claim C5. When the candidate pool of the relation is empty and \<open>k\<close> is positive,
  \<^verbatim>\<open>concept_filter\<close> raises \<^verbatim>\<open>IndexError\<close>. Whenever it returns, it returns exactly \<open>k\<close>
  indices, all from the pool, never fewer. With \<open>k = 0\<close> it returns the empty list for
  any pool, the empty one included.
\<close>

theorem concept_filter_empty_pool:
  "(0 < k \<and> candidate_pool s rel = Inr [] \<longrightarrow> concept_filter s rel k rnd pos = Inl IndexError)
   \<and> (concept_filter s rel k rnd pos = Inr (xs, pos') \<longrightarrow>
        length xs = k \<and> (\<exists>pool. candidate_pool s rel = Inr pool \<and> set xs \<subseteq> set pool))
   \<and> (candidate_pool s rel = Inr pool \<longrightarrow> concept_filter s rel 0 rnd pos = Inr ([], pos))"
  by (auto simp: concept_filter_def choices_def split: sum.splits if_splits)

theorem concept_filter_empty_pool_witness:
  "candidate_pool (RelationBatchSampler 24 (demo_tables ''x'') (1 / 2) demo_info) ''r'' = Inr []
   \<and> concept_filter (RelationBatchSampler 24 (demo_tables ''x'') (1 / 2) demo_info) ''r'' 3
        (\<lambda>n. n) 0 = Inl IndexError
   \<and> concept_filter (RelationBatchSampler 24 (demo_tables ''x'') (1 / 2) demo_info) ''r'' 0
        (\<lambda>n. n) 0 = Inr ([], 0)
   \<and> concept_filter (RelationBatchSampler 24 (demo_tables ''t'') (1 / 2) demo_info) ''r'' 2
        (\<lambda>n. n) 0 = Inr ([0, 0], 2)
   \<and> length [0 :: nat, 0] = 2"
proof -
  let ?s = "RelationBatchSampler 24 (demo_tables ''x'') (1 / 2) demo_info"
  let ?t = "RelationBatchSampler 24 (demo_tables ''t'') (1 / 2) demo_info"
  have p: "candidate_pool ?s ''r'' = Inr []"
    by code_simp
  have q: "concept_filter ?t ''r'' 2 (\<lambda>n. n) 0 = Inr ([0, 0], 2)"
    by code_simp
  from concept_filter_empty_pool [of 3 ?s "''r''" "\<lambda>n. n" 0 "[]" 0 "[]"] p
  have a: "concept_filter ?s ''r'' 3 (\<lambda>n. n) 0 = Inl IndexError"
    and b: "concept_filter ?s ''r'' 0 (\<lambda>n. n) 0 = Inr ([], 0)"
    by simp_all
  from concept_filter_empty_pool [of 2 ?t "''r''" "\<lambda>n. n" 0 "[0, 0]" 2 "[]"] q
  have c: "length [0 :: nat, 0] = 2" by simp
  from p a b q c show ?thesis by simp
qed


lemma concept_filter_zero:
  "(\<exists>e. concept_filter s rel 0 rnd pos = Inl e)
   \<or> concept_filter s rel 0 rnd pos = Inr ([], pos)"
  by (auto simp: concept_filter_def choices_def split: sum.splits)

lemma cake_loop_stuck:
  assumes "batch_size s div 8 = 0" and "0 < cnt"
  shows "cake_loop fuel s rnd pos cnt [] rels0 \<noteq> Some (Inr r)"
proof (induction fuel arbitrary: pos rels0)
  case 0
  show ?case using assms(2) by simp
next
  case (Suc fuel)
  show ?case
  proof (cases "weighted_choice (map fst (smp_rel_ex_cnt s)) (map snd (smp_rel_ex_cnt s)) rnd pos")
    case (Inl e)
    then show ?thesis using assms(2) by simp
  next
    case (Inr p)
    obtain rel pos1 where p: "p = (rel, pos1)" by (cases p)
    show ?thesis
    proof (cases "rel \<in> set rels0")
      case True
      then show ?thesis using Inr p assms(2) Suc.IH [of pos1 rels0] by simp
    next
      case False
      from concept_filter_zero [of s rel rnd pos1]
      consider e where "concept_filter s rel 0 rnd pos1 = Inl e"
        | "concept_filter s rel 0 rnd pos1 = Inr ([], pos1)"
        by blast
      then show ?thesis
      proof cases
        case 1
        then show ?thesis using Inr p assms False by simp
      next
        case 2
        then show ?thesis
          using Inr p assms False Suc.IH [of pos1 "rels0 @ [rel]"] by simp
      qed
    qed
  qed
qed

lemma sampler_iter_stuck:
  assumes "batch_size s div 8 = 0" and "0 < cake_sample_cnt a" and "0 < smp_length s"
  shows "fst (sampler_iter fuel s a rnd pos) = []"
    and "snd (sampler_iter fuel s a rnd pos) \<noteq> Exhausted"
proof -
  obtain n where n: "smp_length s = Suc n" using assms(3) by (cases "smp_length s") auto
  have "batch_portions fuel s a rnd pos \<noteq> Some (Inr r)" for r
    using cake_loop_stuck [OF assms(1,2), of fuel rnd pos "[]"]
    by (auto simp: batch_portions_def split: option.splits sum.splits)
  then have nb: "next_batch fuel s a rnd pos \<noteq> Some (Inr r)" for r
    by (auto simp: next_batch_def split: option.splits sum.splits)
  show "fst (sampler_iter fuel s a rnd pos) = []"
    using nb n by (auto simp: sampler_iter_def split: option.splits sum.splits prod.splits)
  show "snd (sampler_iter fuel s a rnd pos) \<noteq> Exhausted"
    using nb n by (auto simp: sampler_iter_def split: option.splits sum.splits prod.splits)
qed

lemma demo_weighted_choice:
  "weighted_choice (map fst (smp_rel_ex_cnt (RelationBatchSampler bs (demo_tables ent) ratio demo_info)))
     (map snd (smp_rel_ex_cnt (RelationBatchSampler bs (demo_tables ent) ratio demo_info)))
     rnd pos = Inr (''r'', pos + 1)"
  by (simp add: weighted_choice_def RelationBatchSampler_def demo_info_def Let_def)

lemma demo_candidate_pool:
  "candidate_pool (RelationBatchSampler bs (demo_tables ''t'') ratio demo_info) ''r'' = Inr [0]"
proof -
  have "str_int 1 = ''1''" by code_simp
  then show ?thesis
    by (simp add: candidate_pool_def RelationBatchSampler_def demo_tables_def demo_info_def
                  dict_get_def dict_has_def)
qed

lemma demo_cake_loop_small:
  "cake_loop fuel (RelationBatchSampler 4 (demo_tables ''t'') (1 / 2) demo_info) rnd pos 2 []
     rels0 = None"
proof (induction fuel arbitrary: pos rels0)
  case 0
  show ?case by simp
next
  case (Suc fuel)
  let ?s = "RelationBatchSampler 4 (demo_tables ''t'') (1 / 2) demo_info"
  have bs: "batch_size ?s div 8 = 0" by (simp add: RelationBatchSampler_def)
  have cf: "concept_filter ?s ''r'' 0 rnd p = Inr ([], p)" for p
    by (simp add: concept_filter_def demo_candidate_pool choices_def)
  show ?case
    using Suc.IH [of "pos + 1" rels0] Suc.IH [of "pos + 1" "rels0 @ [''r'']"]
    by (simp add: demo_weighted_choice bs cf del: One_nat_def)
qed

text \<open>
  A pass yields at most \<^verbatim>\<open>length\<close> batches, and exactly that many when it ends exhausted.
\<close>

lemma iter_from_batches:
  "iter_from n fuel s a rnd pos = (bs, out)
     \<Longrightarrow> length bs \<le> n \<and> ((out = Exhausted) = (length bs = n))"
proof (induction n arbitrary: pos bs out)
  case 0
  then show ?case by auto
next
  case (Suc n)
  show ?case
  proof (cases "next_batch fuel s a rnd pos")
    case None
    with Suc.prems show ?thesis by auto
  next
    case (Some res)
    show ?thesis
    proof (cases res)
      case (Inl e)
      with Some Suc.prems show ?thesis by auto
    next
      case (Inr p)
      obtain b pos' where p: "p = (b, pos')" by (cases p)
      obtain bs' out' where r: "iter_from n fuel s a rnd pos' = (bs', out')"
        by (cases "iter_from n fuel s a rnd pos'")
      from Suc.IH [OF r] Suc.prems Some Inr p r show ?thesis by auto
    qed
  qed
qed

text \<open>
  Claim C3, at a sampler of batch size 4 over a dataset with one example (so
  \<^verbatim>\<open>batch_size // 8\<close> is 0) and \<^verbatim>\<open>cake_ratio\<close> one half (so the target is 2): the sampler
  promises one batch, but however many rounds of the \<^verbatim>\<open>while\<close> loop are allowed and whatever
  the random draws, no batch is yielded and the loop is still running.
\<close>

theorem sampler_iter_small_batch_never_yields:
  "sampler_len (RelationBatchSampler 4 (demo_tables ''t'') (1 / 2) demo_info) = 1
   \<and> batch_size (RelationBatchSampler 4 (demo_tables ''t'') (1 / 2) demo_info) div 8 = 0
   \<and> cake_sample_cnt (demo_args 4 (1 / 2)) = 2
   \<and> sampler_iter fuel (RelationBatchSampler 4 (demo_tables ''t'') (1 / 2) demo_info)
        (demo_args 4 (1 / 2)) rnd pos = ([], Unfinished)"
proof -
  let ?s = "RelationBatchSampler 4 (demo_tables ''t'') (1 / 2) demo_info"
  have l: "smp_length ?s = Suc 0" by (simp add: RelationBatchSampler_def demo_info_def)
  have c: "cake_sample_cnt (demo_args 4 (1 / 2)) = 2"
    by (simp add: cake_sample_cnt_def demo_args_def py_int_def)
  have "next_batch fuel ?s (demo_args 4 (1 / 2)) rnd pos = None"
    by (simp add: next_batch_def batch_portions_def c demo_cake_loop_small)
  then show ?thesis
    using l c by (simp add: sampler_iter_def sampler_len_def RelationBatchSampler_def)
qed

text \<open>
  Claim C2, at a sampler constructed with batch size 16 while \<^verbatim>\<open>args.batch_size\<close> is 8 and
  \<^verbatim>\<open>args.cake_ratio\<close> is 0: the portions are sized from \<^verbatim>\<open>args.batch_size\<close>, the truncation
  uses \<^verbatim>\<open>self.batch_size\<close>, and the yielded batch has 8 indices.
\<close>

theorem next_batch_shorter_than_batch_size:
  "batch_size (RelationBatchSampler 16 (demo_tables ''t'') 0 demo_info) = 16
   \<and> args_batch_size (demo_args 8 0) = 8
   \<and> next_batch fuel (RelationBatchSampler 16 (demo_tables ''t'') 0 demo_info) (demo_args 8 0)
        rnd pos = Some (Inr (replicate 8 0, pos + 8))
   \<and> length (replicate 8 (0 :: nat)) = 8"
proof -
  let ?s = "RelationBatchSampler 16 (demo_tables ''t'') 0 demo_info"
  have c: "cake_sample_cnt (demo_args 8 0) = 0"
    by (simp add: cake_sample_cnt_def demo_args_def py_int_def)
  have l: "cake_loop fuel ?s rnd pos 0 [] [] = Some (Inr ([], pos))"
    by (cases fuel) simp_all
  have e: "smp_ex_cnt ?s = 1" by (simp add: RelationBatchSampler_def demo_info_def)
  have ab: "args_batch_size (demo_args 8 0) = 8" by (simp add: demo_args_def)
  have "batch_portions fuel ?s (demo_args 8 0) rnd pos
          = Some (Inr ([], replicate 8 0, pos + 8))"
    by (simp add: batch_portions_def c l e ab choices_def map_replicate_const)
  then show ?thesis
    by (simp add: next_batch_def RelationBatchSampler_def demo_args_def)
qed




section \<open>Properties of \<^verbatim>\<open>ds_info\<close>\<close>





lemma demo_dataset_built:
  "Dataset demo_env [] ''wiki5m_ind'' (Some [\<lparr>head_id = ''h'', relation = ''r'', tail_id = ''t''\<rparr>])
     = Inr demo_dataset"
  by (simp add: Dataset_def demo_dataset_def)

lemma demo_store_eval:
  "demo_store =
     (\<lparr>self_examples = 0, self_rels = 1, self_rel2ent_t = 4, self_rel_ex_cnt = 5,
       self_ex_hid = 6, self_idx2example = 7\<rparr>,
      [ExList [\<lparr>head_id = ''h'', relation = ''r'', tail_id = ''t''\<rparr>], StrList [''r''],
       IdxList [0], RefDict [(''t'', 2)], RefDict [(''r'', 3)], CntDict [(''r'', 1)],
       HidDict [(0, ''h'')],
       ExDict [(0, \<lparr>head_id = ''h'', relation = ''r'', tail_id = ''t''\<rparr>)]])"
  by code_simp




subsection \<open>The store of a constructed dataset\<close>

text \<open>
  The layout of any dataset is well formed, and the index structures read from it are
  the dataset's: the premise of the frame property above holds for every dataset that
  \<^verbatim>\<open>Dataset.__init__\<close> builds.
\<close>

lemma alloc_all_eq:
  "alloc_all h obs = ([length h..<length h + length obs], h @ obs)"
proof (induction obs arbitrary: h)
  case Nil
  show ?case by simp
next
  case (Cons ob obs)
  have "[length h..<length h + Suc (length obs)]
          = length h # [Suc (length h)..<Suc (length h) + length obs]"
    by (subst upt_rec) simp
  then show ?case by (simp add: alloc_def Cons.IH)
qed

lemma store_inner_eq:
  "store_inner h inner =
     (length h + length inner,
      h @ map (\<lambda>e. IdxList (snd e)) inner
        @ [RefDict (zip (map fst inner) [length h..<length h + length inner])])"
  by (simp add: store_inner_def alloc_all_eq alloc_def)

lemma store_inner_read:
  assumes "store_inner h inner = (a, h1)"
  shows "length h \<le> length h1" and "a < length h1"
    and "\<forall>e \<in> set (refs_of (h1 ! a)). snd e < length h1"
    and "read_inner h1 a = inner"
    and "take (length h) h1 = h"
proof -
  let ?n = "length inner"
  let ?d = "zip (map fst inner) [length h..<length h + ?n]"
  have a: "a = length h + ?n"
    and h1: "h1 = h @ map (\<lambda>e. IdxList (snd e)) inner @ [RefDict ?d]"
    using assms by (auto simp: store_inner_eq)
  show "length h \<le> length h1" "a < length h1" "take (length h) h1 = h"
    by (simp_all add: a h1)
  have at: "h1 ! a = RefDict ?d"
    by (simp add: a h1 nth_append)
  have rf: "refs_of (h1 ! a) = ?d" by (simp add: at refs_of_def)
  have len1: "length h1 = Suc (length h + ?n)" by (simp add: h1)
  show "\<forall>e \<in> set (refs_of (h1 ! a)). snd e < length h1"
    unfolding rf len1 by (auto dest!: set_zip_rightD)
  show "read_inner h1 a = inner"
  proof (rule nth_equalityI)
    show "length (read_inner h1 a) = length inner"
      by (simp add: read_inner_def at refs_of_def)
  next
    fix i assume "i < length (read_inner h1 a)"
    then have i: "i < ?n" by (simp add: read_inner_def at refs_of_def)
    then have "h1 ! (length h + i) = IdxList (snd (inner ! i))"
      by (simp add: h1 nth_append)
    then show "read_inner h1 a ! i = inner ! i"
      using i by (simp add: read_inner_def at refs_of_def read_bucket_def)
  qed
qed

lemma read_inner_append:
  assumes "a < length h" and "\<forall>e \<in> set (refs_of (h ! a)). snd e < length h"
  shows "read_inner (h @ ext) a = read_inner h a"
  using assms by (simp add: read_inner_def read_bucket_def nth_append)

lemma store_inners_read:
  assumes "store_inners h ds = (addrs, h2)"
  shows "take (length h) h2 = h \<and> length h \<le> length h2
       \<and> list_all2 (\<lambda>a d. a < length h2
                      \<and> (\<forall>e \<in> set (refs_of (h2 ! a)). snd e < length h2)
                      \<and> read_inner h2 a = d) addrs ds"
  using assms
proof (induction ds arbitrary: h addrs)
  case Nil
  then show ?case by simp
next
  case (Cons d ds)
  from Cons.prems obtain a h1 rest where
    s1: "store_inner h d = (a, h1)" and s2: "store_inners h1 ds = (rest, h2)"
    and addrs: "addrs = a # rest"
    by (auto split: prod.splits)
  note r = store_inner_read [OF s1]
  from Cons.IH [OF s2] have
    t: "take (length h1) h2 = h1" and le: "length h1 \<le> length h2"
    and all: "list_all2 (\<lambda>a d. a < length h2
                      \<and> (\<forall>e \<in> set (refs_of (h2 ! a)). snd e < length h2)
                      \<and> read_inner h2 a = d) rest ds"
    by simp_all
  obtain ext where ext: "h2 = h1 @ ext"
    using t by (metis append_take_drop_id)
  have a2: "h2 ! a = h1 ! a" using r(2) by (simp add: ext nth_append)
  have ri: "read_inner h2 a = d"
    using read_inner_append [OF r(2,3), of ext] r(4) by (simp add: ext)
  have "take (length h) h2 = h"
    using r(1,5) by (simp add: ext)
  moreover have "length h \<le> length h2" using r(1) le by simp
  moreover have "a < length h2" using r(2) le by simp
  moreover have "\<forall>e \<in> set (refs_of (h2 ! a)). snd e < length h2"
    using r(3) le by (auto simp: a2)
  ultimately show ?case using all ri by (simp add: addrs)
qed

lemma store_dataset_view:
  assumes "store_dataset h ds = (self, h')"
  shows "wf_dataset h' self" and "dataset_view h' self = ds_info_values ds"
proof -
  let ?h2 = "h @ [ExList (examples ds), StrList (rels ds)]"
  obtain inners h3 where si: "store_inners ?h2 (map snd (rel2ent_t ds)) = (inners, h3)"
    by (cases "store_inners ?h2 (map snd (rel2ent_t ds))")
  note r = store_inners_read [OF si]
  let ?outer = "zip (map fst (rel2ent_t ds)) inners"
  let ?tl = "[RefDict ?outer, CntDict (rel_ex_cnt ds), HidDict (ex_hid ds),
              ExDict (idx2example ds)]"
  have h': "h' = h3 @ ?tl"
    and self: "self = \<lparr>self_examples = length h, self_rels = Suc (length h),
                       self_rel2ent_t = length h3, self_rel_ex_cnt = Suc (length h3),
                       self_ex_hid = Suc (Suc (length h3)),
                       self_idx2example = Suc (Suc (Suc (length h3)))\<rparr>"
    using assms si by (simp_all add: store_dataset_def alloc_def)
  have len: "length inners = length (rel2ent_t ds)"
    using r by (auto dest: list_all2_lengthD)
  have pre: "take (length ?h2) h3 = ?h2" and le: "length ?h2 \<le> length h3"
    using r by simp_all
  have e0: "h3 ! length h = ExList (examples ds)"
  proof -
    have "h3 ! length h = take (length ?h2) h3 ! length h" by simp
    also have "\<dots> = ?h2 ! length h" by (simp only: pre)
    also have "\<dots> = ExList (examples ds)" by (simp add: nth_append)
    finally show ?thesis .
  qed
  have e1: "h3 ! Suc (length h) = StrList (rels ds)"
  proof -
    have "h3 ! Suc (length h) = take (length ?h2) h3 ! Suc (length h)" by simp
    also have "\<dots> = ?h2 ! Suc (length h)" by (simp only: pre)
    also have "\<dots> = StrList (rels ds)" by (simp add: nth_append)
    finally show ?thesis .
  qed
  have each: "inners ! i < length h3
               \<and> (\<forall>e \<in> set (refs_of (h3 ! (inners ! i))). snd e < length h3)
               \<and> read_inner h3 (inners ! i) = snd (rel2ent_t ds ! i)"
    if "i < length (rel2ent_t ds)" for i
    using r that by (auto simp: list_all2_conv_all_nth)
  have outer: "h' ! length h3 = RefDict ?outer" by (simp add: h')
  have rr: "read_rel2ent_t h' (length h3) = rel2ent_t ds"
  proof (rule nth_equalityI)
    show "length (read_rel2ent_t h' (length h3)) = length (rel2ent_t ds)"
      by (simp add: read_rel2ent_t_def outer refs_of_def len)
  next
    fix i assume "i < length (read_rel2ent_t h' (length h3))"
    then have i: "i < length (rel2ent_t ds)"
      by (simp add: read_rel2ent_t_def outer refs_of_def len)
    have "read_inner h' (inners ! i) = read_inner h3 (inners ! i)"
      unfolding h' using each [OF i] by (intro read_inner_append) auto
    then show "read_rel2ent_t h' (length h3) ! i = rel2ent_t ds ! i"
      using i each [OF i] len
      by (simp add: read_rel2ent_t_def outer refs_of_def prod_eq_iff)
  qed
  have lo: "length h < length h3" "Suc (length h) < length h3" using le by simp_all
  show "dataset_view h' self = ds_info_values ds"
    using rr e0 e1 lo
    by (simp add: dataset_view_def ds_info_values_def self h' nth_append read_strs_def
                  read_cnt_def read_hid_def read_exs_def read_examples_def)
  have n1: "\<forall>e \<in> set ?outer. snd e < length h'"
  proof
    fix e assume "e \<in> set ?outer"
    then obtain i where "i < length ?outer" and "e = ?outer ! i"
      by (auto simp: in_set_conv_nth)
    then show "snd e < length h'" using each [of i] len by (simp add: h')
  qed
  have n2: "\<forall>e \<in> set ?outer. \<forall>b \<in> set (refs_of (h' ! snd e)). snd b < length h'"
  proof
    fix e assume "e \<in> set ?outer"
    then obtain i where i: "i < length ?outer" and e: "e = ?outer ! i"
      by (auto simp: in_set_conv_nth)
    then have "h' ! snd e = h3 ! (inners ! i)"
      using each [of i] len by (simp add: h' nth_append)
    then show "\<forall>b \<in> set (refs_of (h' ! snd e)). snd b < length h'"
      using each [of i] i len by (auto simp: h')
  qed
  have ro: "refs_of (h' ! length h3) = ?outer" by (simp add: outer refs_of_def)
  have len': "length h' = length h3 + 4" by (simp add: h')
  show "wf_dataset h' self"
    unfolding wf_dataset_def dataset_addrs_def nested_addrs_def list_all_iff
    using n1 n2 lo len' by (auto simp: self ro)
qed

end
